theory Spec2Isabelle
  imports Main "HOL-Library.Sublist" "HOL-Library.AList"
begin

section \<open>JavaScript strings, values and objects\<close>

text \<open>
  Strings are lists of characters. The string methods used by the sources are written out
  with the behaviour ECMAScript gives them on the arguments that occur: indices are
  integers, \<open>indexOf\<close> and \<open>lastIndexOf\<close> answer \<open>-1\<close> when nothing is found, and
  \<open>slice\<close> clamps its bounds and counts a negative bound from the end.
  White space is the set \<open>trim\<close> removes, restricted to the characters below \<open>0x80\<close>:
  TAB, LF, VT, FF, CR and SPACE.
\<close>

definition isWhiteSpace :: "char \<Rightarrow> bool" where
  "isWhiteSpace ch \<longleftrightarrow> ch \<in> {CHR 0x09, CHR 0x0A, CHR 0x0B, CHR 0x0C, CHR 0x0D, CHR 0x20}"

definition trimStart :: "string \<Rightarrow> string" where
  "trimStart s = dropWhile isWhiteSpace s"

definition trimEnd :: "string \<Rightarrow> string" where
  "trimEnd s = rev (dropWhile isWhiteSpace (rev s))"

definition trim :: "string \<Rightarrow> string" where
  "trim s = trimEnd (trimStart s)"

definition slice :: "string \<Rightarrow> int \<Rightarrow> int \<Rightarrow> string" where
  "slice s start end =
     (let len = int (length s);
          from = (if start < 0 then max (len + start) 0 else min start len);
          to = (if end < 0 then max (len + end) 0 else min end len)
      in take (nat (to - from)) (drop (nat from) s))"

definition sliceFrom :: "string \<Rightarrow> int \<Rightarrow> string" where
  "sliceFrom s start = slice s start (int (length s))"

definition startsWith :: "string \<Rightarrow> string \<Rightarrow> bool" where
  "startsWith s searchString = prefix searchString s"

definition includesChar :: "string \<Rightarrow> char \<Rightarrow> bool" where
  "includesChar s ch \<longleftrightarrow> ch \<in> set s"

definition indexOf :: "string \<Rightarrow> char \<Rightarrow> int \<Rightarrow> int" where
  "indexOf s ch position =
     (case List.find (\<lambda>k. s ! k = ch) [nat (max 0 position) ..< length s] of
        None \<Rightarrow> - 1
      | Some k \<Rightarrow> int k)"

definition lastIndexOf :: "string \<Rightarrow> char \<Rightarrow> int" where
  "lastIndexOf s ch =
     (case List.find (\<lambda>k. s ! k = ch) (rev [0 ..< length s]) of
        None \<Rightarrow> - 1
      | Some k \<Rightarrow> int k)"

fun replaceAll :: "string \<Rightarrow> string \<Rightarrow> string \<Rightarrow> string" where
  "replaceAll [] pattern replacement = []"
| "replaceAll (x # xs) pattern replacement =
     (if pattern \<noteq> [] \<and> prefix pattern (x # xs)
      then replacement @ replaceAll (drop (length pattern - 1) xs) pattern replacement
      else x # replaceAll xs pattern replacement)"

fun join :: "string list \<Rightarrow> string \<Rightarrow> string" where
  "join [] separator = []"
| "join [x] separator = x"
| "join (x # y # ys) separator = x @ separator @ join (y # ys) separator"

text \<open>The characters the parser and the writer look for.\<close>

definition quote :: char where
  "quote = CHR 0x22"

definition comma :: char where
  "comma = CHR 0x2C"

definition newline :: char where
  "newline = CHR 0x0A"

text \<open>
  JavaScript values, as far as rows and entities hold them. Numbers are integers (the
  schemas of the repository declare integer fields only). An object is the list of
  its properties in insertion order, each key once.
\<close>

datatype jsValue =
    Undefined
  | Null
  | Str string
  | Num int
  | Arr "jsValue list"
  | Obj "(string \<times> jsValue) list"

type_synonym jsobject = "(string \<times> jsValue) list"

definition getProp :: "jsobject \<Rightarrow> string \<Rightarrow> jsValue" where
  "getProp obj k = (case map_of obj k of None \<Rightarrow> Undefined | Some v \<Rightarrow> v)"

definition fromEntries :: "(string \<times> jsValue) list \<Rightarrow> jsobject" where
  "fromEntries entries = foldl (\<lambda>obj (k, v). AList.update k v obj) [] entries"

definition objectValues :: "jsobject \<Rightarrow> jsValue list" where
  "objectValues obj = map snd obj"

section \<open>The row parser (src/csv/helpers/parse-csv.ts)\<close>

datatype readingState = Text | Escaped

record CsvParseState =
  readingState :: readingState
  header :: "string list"
  columns :: "string list"
  "text" :: string

text \<open>
  The row callback \<open>parser\<close> returns nothing, returns \<open>-1\<close> to stop, or throws. It may
  change a state of its own (a table it fills), which is passed through it explicitly.
\<close>

datatype error =
    UnexpectedQuote
  | TgtfsParsingError string "string list" jsobject
  | InvalidForeignKey string string jsValue
  | EntityWithInvalidForeignKey string string string jsValue jsobject
  | ForeignKeyNotString jsValue
  | UnexpectedValueType

datatype 'c signal = Void 'c | Minus1 'c | Throws error 'c

type_synonym 'c CsvRowParser = "jsobject \<Rightarrow> 'c \<Rightarrow> 'c signal"

record parseOptions =
  transformHeader :: "(string \<Rightarrow> string) option"

text \<open>
  What a call of \<open>parseChunk\<close> does: it returns the state and the remainder, it returns
  \<open>-1\<close>, or it throws. The callback's own state is part of each.
\<close>

datatype 'c chunkResult =
    Parsed CsvParseState string 'c
  | Stopped 'c
  | Thrown error 'c

text \<open>Lines 129-137 and 139-147: the loop counting the quotes a string ends with.\<close>

function countEndQuotes :: "string \<Rightarrow> int \<Rightarrow> int \<Rightarrow> int \<times> int" where
  "countEndQuotes str i quoteCount =
     (if i \<ge> 0
      then (if str ! nat i = quote then countEndQuotes str (i - 1) (quoteCount + 1)
            else (i, quoteCount))
      else (i, quoteCount))"
  by pat_completeness auto
termination
  by (relation "measure (\<lambda>(str, i, quoteCount). nat (i + 1))") auto

declare countEndQuotes.simps [simp del]

definition isFullQuote :: "string \<Rightarrow> bool" where
  "isFullQuote str =
     (case countEndQuotes str (int (length str) - 1) 0 of
        (i, quoteCount) \<Rightarrow>
          (if i = - 1 then quoteCount mod 2 = 0 else quoteCount mod 2 = 1))"

definition hasOddNumberEndQuotes :: "string \<Rightarrow> bool" where
  "hasOddNumberEndQuotes str =
     (case countEndQuotes str (int (length str) - 1) 0 of
        (i, quoteCount) \<Rightarrow> quoteCount mod 2 = 1)"

text \<open>Lines 149-151. \<open>row.at(i)\<close> is undefined past the end of the row.\<close>

definition at :: "string list \<Rightarrow> nat \<Rightarrow> string option" where
  "at row i = (if i < length row then Some (row ! i) else None)"

definition zipRow :: "string list \<Rightarrow> string list \<Rightarrow> jsobject" where
  "zipRow hdr row =
     fromEntries
       (map (\<lambda>(i, fieldName).
               (fieldName,
                case at row i of
                  None \<Rightarrow> Undefined
                | Some s \<Rightarrow> (if s = [] then Undefined else Str s)))
            (List.enumerate 0 hdr))"

text \<open>
  The body of the loop of \<open>parseChunk\<close>, in three parts. \<open>finishRow\<close> is the step the
  source repeats at lines 87-91, 96-100 and 111-115: the first finished row becomes the
  header, every later one goes to the callback. \<open>commaField\<close> is the branch of lines
  57-78, \<open>newlineField\<close> the branch of lines 81-121.
\<close>

datatype 'c step = Go CsvParseState 'c | ReturnMinus1 'c | Throw error 'c

definition finishRow ::
  "parseOptions \<Rightarrow> 'c CsvRowParser \<Rightarrow> CsvParseState \<Rightarrow> 'c \<Rightarrow> 'c step" where
  "finishRow options parser state c =
     (if length (header state) = 0
      then Go (state\<lparr>header :=
                 (case transformHeader options of
                    Some f \<Rightarrow> map f (columns state)
                  | None \<Rightarrow> columns state)\<rparr>) c
      else (case parser (zipRow (header state) (columns state)) c of
              Minus1 c' \<Rightarrow> ReturnMinus1 c'
            | Throws e c' \<Rightarrow> Throw e c'
            | Void c' \<Rightarrow> Go state c'))"

definition commaField :: "string \<Rightarrow> CsvParseState \<Rightarrow> error + CsvParseState" where
  "commaField substr state =
     (let quoted = includesChar substr quote in
      if readingState state \<noteq> Escaped then
        (if \<not> quoted then
           Inr (state\<lparr>columns := columns state @ [trim substr]\<rparr>)
         else if startsWith (trimStart substr) [quote] then
           (if isFullQuote (trimEnd substr) then
              Inr (state\<lparr>columns := columns state @
                     [replaceAll (slice (trim substr) 1 (- 1)) [quote, quote] [quote]]\<rparr>)
            else
              Inr (state\<lparr>text := text state @ sliceFrom (trimStart substr) 1 @ [comma],
                         readingState := Escaped\<rparr>))
         else Inl UnexpectedQuote)
      else if hasOddNumberEndQuotes (trimEnd substr) then
        Inr (state\<lparr>columns := columns state @
               [replaceAll (text state @ slice (trimEnd substr) 0 (- 1)) [quote, quote] [quote]],
             readingState := Text,
             text := []\<rparr>)
      else
        Inr (state\<lparr>text := text state @ substr @ [comma]\<rparr>))"

definition newlineField ::
  "parseOptions \<Rightarrow> 'c CsvRowParser \<Rightarrow> string \<Rightarrow> CsvParseState \<Rightarrow> 'c \<Rightarrow> 'c step" where
  "newlineField options parser substr state c =
     (let quoted = includesChar substr quote in
      if readingState state \<noteq> Escaped then
        (if \<not> quoted \<and> (length (columns state) > 0 \<or> trim substr \<noteq> []) then
           (case finishRow options parser
                   (state\<lparr>columns := columns state @ [trim substr]\<rparr>) c of
              ReturnMinus1 c' \<Rightarrow> ReturnMinus1 c'
            | Throw e c' \<Rightarrow> Throw e c'
            | Go state' c' \<Rightarrow> Go (state'\<lparr>columns := []\<rparr>) c')
         else if startsWith (trimStart substr) [quote] then
           (if isFullQuote (trimEnd substr) then
              (case finishRow options parser
                      (state\<lparr>columns := columns state @
                         [replaceAll (slice (trim substr) 1 (- 1)) [quote, quote] [quote]]\<rparr>) c of
                 ReturnMinus1 c' \<Rightarrow> ReturnMinus1 c'
               | Throw e c' \<Rightarrow> Throw e c'
               | Go state' c' \<Rightarrow> Go (state'\<lparr>columns := []\<rparr>) c')
            else
              Go (state\<lparr>text := text state @ sliceFrom (trimStart substr) 1 @ [newline],
                        readingState := Escaped\<rparr>) c)
         else if \<not> startsWith (trimStart substr) [quote] \<and> quoted then
           Throw UnexpectedQuote c
         else Go state c)
      else if hasOddNumberEndQuotes (trimEnd substr) then
        (case finishRow options parser
                (state\<lparr>columns := columns state @
                   [replaceAll (text state @ slice (trimEnd substr) 0 (- 1))
                      [quote, quote] [quote]]\<rparr>) c of
           ReturnMinus1 c' \<Rightarrow> ReturnMinus1 c'
         | Throw e c' \<Rightarrow> Throw e c'
         | Go state' c' \<Rightarrow> Go (state'\<lparr>readingState := Text, text := [], columns := []\<rparr>) c')
      else
        Go (state\<lparr>text := text state @ substr @ [newline]\<rparr>) c)"

text \<open>
  The loop of lines 53-124. When neither branch is taken, the body changes nothing and
  the loop comes back to the same test: that path never returns.
\<close>

partial_function (option) parseLoop ::
  "parseOptions \<Rightarrow> 'c CsvRowParser \<Rightarrow> string \<Rightarrow> int \<Rightarrow> int \<Rightarrow> CsvParseState \<Rightarrow> 'c
     \<Rightarrow> 'c chunkResult option" where
  "parseLoop options parser csv lastIndex i state c =
     (if i \<le> lastIndex then
        (let nextCommaIndex = indexOf csv comma i;
             nextNewlineIndex = indexOf csv newline i
         in if nextCommaIndex \<ge> 0
               \<and> (nextCommaIndex < nextNewlineIndex \<or> nextNewlineIndex = - 1) then
              (case commaField (slice csv i nextCommaIndex) state of
                 Inl e \<Rightarrow> Some (Thrown e c)
               | Inr state' \<Rightarrow>
                   parseLoop options parser csv lastIndex (nextCommaIndex + 1) state' c)
            else if nextNewlineIndex \<ge> 0 then
              (case newlineField options parser (slice csv i nextNewlineIndex) state c of
                 ReturnMinus1 c' \<Rightarrow> Some (Stopped c')
               | Throw e c' \<Rightarrow> Some (Thrown e c')
               | Go state' c' \<Rightarrow>
                   parseLoop options parser csv lastIndex (nextNewlineIndex + 1) state' c')
            else parseLoop options parser csv lastIndex i state c)
      else Some (Parsed state (sliceFrom csv (lastIndex + 1)) c))"

declare parseLoop.simps [code]

definition defaultState :: CsvParseState where
  "defaultState = \<lparr>readingState = Text, header = [], columns = [], text = []\<rparr>"

definition parseChunk ::
  "string \<Rightarrow> 'c CsvRowParser \<Rightarrow> CsvParseState option \<Rightarrow> parseOptions \<Rightarrow> 'c
     \<Rightarrow> 'c chunkResult option" where
  "parseChunk csv parser stateArg options c =
     (let state = (case stateArg of None \<Rightarrow> defaultState | Some s \<Rightarrow> s);
          lastIndex = max (lastIndexOf csv newline) (lastIndexOf csv comma)
      in parseLoop options parser csv lastIndex 0 state c)"

text \<open>
  The loop of \<open>importFromCsv\<close> (src/csv/helpers/import.ts, lines 16-25; \<open>parseCsv\<close> in
  parse-csv.ts has the same loop). \<open>parseResult\<close> is undefined before the first chunk.
\<close>

datatype 'c readResult =
    EndOfStream "(CsvParseState \<times> string) option" 'c
  | EarlyReturn 'c
  | ReadThrew error 'c

fun readChunks ::
  "parseOptions \<Rightarrow> 'c CsvRowParser \<Rightarrow> string list \<Rightarrow> (CsvParseState \<times> string) option \<Rightarrow> 'c
     \<Rightarrow> 'c readResult option" where
  "readChunks options parser [] parseResult c = Some (EndOfStream parseResult c)"
| "readChunks options parser (chunk # chunks) parseResult c =
     (case parseChunk ((case parseResult of None \<Rightarrow> [] | Some (state, remainder) \<Rightarrow> remainder) @ chunk)
             parser (map_option fst parseResult) options c of
        None \<Rightarrow> None
      | Some (Stopped c') \<Rightarrow> Some (EarlyReturn c')
      | Some (Thrown e c') \<Rightarrow> Some (ReadThrew e c')
      | Some (Parsed state remainder c') \<Rightarrow>
          readChunks options parser chunks (Some (state, remainder)) c')"

text \<open>
  The file system holds the content of each file that exists. \<open>fs.createReadStream\<close>
  cuts a content into chunks; where it cuts is up to the runtime, so the cut is the
  parameter \<open>createReadStream\<close>.
\<close>

type_synonym fileSystem = "string \<rightharpoonup> string"

datatype 'c outcome = Returned 'c | Failed error 'c

definition pathExists :: "fileSystem \<Rightarrow> string \<Rightarrow> bool" where
  "pathExists fs path \<longleftrightarrow> fs path \<noteq> None"

definition importFromCsv ::
  "fileSystem \<Rightarrow> (string \<Rightarrow> string list) \<Rightarrow> string \<Rightarrow> 'c CsvRowParser \<Rightarrow> (string \<Rightarrow> string) option \<Rightarrow> 'c
     \<Rightarrow> 'c outcome option" where
  "importFromCsv fs createReadStream path addEntity transformHeaderArg c =
     (if \<not> pathExists fs path then Some (Returned c)
      else
        (let csvParseOpts = \<lparr>transformHeader = transformHeaderArg\<rparr>;
             readStream = createReadStream (the (fs path))
         in case readChunks csvParseOpts addEntity readStream None c of
              None \<Rightarrow> None
            | Some (EarlyReturn c') \<Rightarrow> Some (Returned c')
            | Some (ReadThrew e c') \<Rightarrow> Some (Failed e c')
            | Some (EndOfStream parseResult c') \<Rightarrow>
                (case parseChunk
                        ((case parseResult of None \<Rightarrow> [] | Some (state, remainder) \<Rightarrow> remainder)
                           @ [newline])
                        addEntity (map_option fst parseResult) csvParseOpts c' of
                   None \<Rightarrow> None
                 | Some (Thrown e c'') \<Rightarrow> Some (Failed e c'')
                 | Some (Stopped c'') \<Rightarrow> Some (Returned c'')
                 | Some (Parsed state remainder c'') \<Rightarrow> Some (Returned c''))))"

section \<open>The row writer (src/csv/helpers/export.ts)\<close>

text \<open>
  \<open>String(n)\<close> of an integer, \<open>String(v)\<close> of a value, and \<open>JSON.stringify\<close>.
\<close>

definition digitChar :: "nat \<Rightarrow> char" where
  "digitChar n = char_of (48 + n)"

fun showNat :: "nat \<Rightarrow> string" where
  "showNat n = (if n < 10 then [digitChar n] else showNat (n div 10) @ [digitChar (n mod 10)])"

declare showNat.simps [simp del]

definition showInt :: "int \<Rightarrow> string" where
  "showInt i = (if i < 0 then CHR ''-'' # showNat (nat (- i)) else showNat (nat i))"

fun toString :: "jsValue \<Rightarrow> string" where
  "toString Undefined = ''undefined''"
| "toString Null = ''null''"
| "toString (Str s) = s"
| "toString (Num n) = showInt n"
| "toString (Arr vs) =
     join (map (\<lambda>v. if v = Undefined \<or> v = Null then [] else toString v) vs) '',''"
| "toString (Obj ps) = ''[object Object]''"










section \<open>The entity tables (src/csv/schema/make-table.ts)\<close>

text \<open>
  A JavaScript \<open>Map\<close> keeps its keys in the order they were first set; setting a key that
  is there keeps its place.
\<close>

type_synonym entity = jsobject
type_synonym 'v jsMap = "(string \<times> 'v) list"
type_synonym OneIndexMap = "entity jsMap"
type_synonym TwoIndexMap = "OneIndexMap jsMap"

definition mapGet :: "'v jsMap \<Rightarrow> string \<Rightarrow> 'v option" where
  "mapGet m k = map_of m k"

definition mapSet :: "'v jsMap \<Rightarrow> string \<Rightarrow> 'v \<Rightarrow> 'v jsMap" where
  "mapSet m k v = AList.update k v m"

definition mapDelete :: "'v jsMap \<Rightarrow> string \<Rightarrow> 'v jsMap" where
  "mapDelete m k = AList.delete k m"

definition mapValues :: "'v jsMap \<Rightarrow> 'v list" where
  "mapValues m = map snd m"

definition mapSize :: "'v jsMap \<Rightarrow> nat" where
  "mapSize m = length m"

text \<open>
  The configuration of a table. The field schema is a zod object, of which the tables use
  two things: the names of its fields (\<open>shape\<close>) and its parser (\<open>fieldsParse\<close>), which answers
  the issues it found and the parsed value, unless it gave up on the input.
\<close>

record OneIndexConfig =
  tableName :: string
  fieldsParse :: "jsobject \<Rightarrow> string list \<times> entity option"
  shape :: "string list"
  primaryKey :: "string list"
  foreignKeys :: "(string \<times> string) list"
  interFeedKeys :: "string list option"
  gtfsFields :: "string list option"
  additionalValidation :: "(string \<times> (entity \<Rightarrow> bool)) list option"
  transformHeader :: "(string \<Rightarrow> string) option"

record TwoIndexConfig = OneIndexConfig +
  secondaryKey :: "string list"

text \<open>The separator of composite keys, U+241F, as its three bytes.\<close>

definition separator :: string where
  "separator = [CHR 0xE2, CHR 0x90, CHR 0x9F]"

subsection \<open>TwoIndexTable\<close>

text \<open>
  Of the two-level table, the members that store, look up and delete; the others repeat
  those of \<open>OneIndexTable\<close>. Its methods carry the suffix 2 where the two classes share a
  name.
\<close>

record TwoIndexTable =
  entities :: TwoIndexMap
  config :: TwoIndexConfig

definition getPrimaryKey :: "TwoIndexTable \<Rightarrow> entity \<Rightarrow> string" where
  "getPrimaryKey this entity =
     join (map (\<lambda>field. toString (getProp entity field)) (primaryKey (config this))) separator"

definition getSecondaryKey :: "TwoIndexTable \<Rightarrow> entity \<Rightarrow> string" where
  "getSecondaryKey this entity =
     join (map (\<lambda>field. toString (getProp entity field)) (secondaryKey (config this))) separator"

definition addParsedEntity2 :: "TwoIndexTable \<Rightarrow> entity \<Rightarrow> entity \<times> TwoIndexTable" where
  "addParsedEntity2 this entity =
     (let entityBySecondaryKey =
            (case mapGet (entities this) (getPrimaryKey this entity) of
               None \<Rightarrow> []
             | Some m \<Rightarrow> m);
          entityBySecondaryKey' = mapSet entityBySecondaryKey (getSecondaryKey this entity) entity
      in (entity,
          this\<lparr>entities := mapSet (entities this) (getPrimaryKey this entity) entityBySecondaryKey'\<rparr>))"

definition getWithIds :: "TwoIndexTable \<Rightarrow> string \<Rightarrow> string \<Rightarrow> entity option" where
  "getWithIds this primaryKeyArg secondaryKeyArg =
     (case mapGet (entities this) primaryKeyArg of
        None \<Rightarrow> None
      | Some m \<Rightarrow> mapGet m secondaryKeyArg)"

definition getWithFirstId :: "TwoIndexTable \<Rightarrow> string \<Rightarrow> entity list" where
  "getWithFirstId this ident =
     (case mapGet (entities this) ident of
        None \<Rightarrow> []
      | Some entityBySecondId \<Rightarrow> mapValues entityBySecondId)"

definition deleteEntity2 :: "TwoIndexTable \<Rightarrow> entity \<Rightarrow> TwoIndexTable" where
  "deleteEntity2 this entity =
     (let this1 =
            (case mapGet (entities this) (getPrimaryKey this entity) of
               None \<Rightarrow> this
             | Some m \<Rightarrow>
                 this\<lparr>entities := mapSet (entities this) (getPrimaryKey this entity)
                                    (mapDelete m (getSecondaryKey this entity))\<rparr>)
      in case mapGet (entities this1) (getPrimaryKey this1 entity) of
           None \<Rightarrow> this1
         | Some m \<Rightarrow>
             (if mapSize m = 0
              then this1\<lparr>entities := mapDelete (entities this1) (getPrimaryKey this1 entity)\<rparr>
              else this1))"

subsection \<open>OneIndexTable and the Registry\<close>

text \<open>
  A table object holds its entities, its configuration and the foreign keys it checks,
  which its constructor works out once. The Registry (\<open>ItineraryTgtfs\<close>) carries the two
  flags and the tables by name. A table is held by its Registry under its table name (the
  constructor of \<open>ItineraryTgtfs\<close> sets \<open>this.trips = Trips(this)\<close>); so what a method reads
  through \<open>this.#tgtfs\<close> is the Registry it is given with the table, as it is at that
  moment, under that name: \<open>registry this tgtfs\<close>.
\<close>

record OneIndexTable =
  entities :: OneIndexMap
  config :: OneIndexConfig
  checkedForeignKeys :: "(string \<times> string) list"

record ItineraryTgtfs =
  transcodeMode :: bool
  allowInterFeedKeys :: bool
  tables :: "string \<Rightarrow> OneIndexTable"

definition registry :: "OneIndexTable \<Rightarrow> ItineraryTgtfs \<Rightarrow> ItineraryTgtfs" where
  "registry this tgtfs = tgtfs\<lparr>tables := (tables tgtfs)(tableName (config this) := this)\<rparr>"

text \<open>The constructor, lines 55-76.\<close>

definition newOneIndexTable :: "OneIndexConfig \<Rightarrow> ItineraryTgtfs \<Rightarrow> OneIndexTable" where
  "newOneIndexTable schema tgtfs =
     \<lparr>entities = [],
      config = schema,
      checkedForeignKeys =
        filter (\<lambda>(field, referenced).
                  \<not> ((case interFeedKeys schema of None \<Rightarrow> False | Some ks \<Rightarrow> field \<in> set ks)
                     \<and> allowInterFeedKeys tgtfs))
               (foreignKeys schema)\<rparr>"

definition zodFieldsSchema :: "OneIndexTable \<Rightarrow> jsobject \<Rightarrow> string list + entity" where
  "zodFieldsSchema this obj =
     (case fieldsParse (config this) obj of
        (issues, None) \<Rightarrow> Inl issues
      | (issues, Some v) \<Rightarrow>
          (let issues' = issues @
                 map fst (filter (\<lambda>(message, validator). \<not> validator v)
                            (case additionalValidation (config this) of None \<Rightarrow> [] | Some vs \<Rightarrow> vs))
           in if issues' = [] then Inr v else Inl issues'))"

definition getKey :: "OneIndexTable \<Rightarrow> entity \<Rightarrow> string" where
  "getKey this entity =
     (if length (primaryKey (config this)) = 0
      then join (map toString (objectValues entity)) separator
      else join (map (\<lambda>k. toString (getProp entity k)) (primaryKey (config this))) separator)"

definition parseEntity ::
  "(jsobject \<Rightarrow> string list + entity) \<Rightarrow> string \<Rightarrow> jsobject \<Rightarrow> error + entity" where
  "parseEntity schema name entity =
     (case schema entity of
        Inr parsed \<Rightarrow> Inr parsed
      | Inl issues \<Rightarrow> Inl (TgtfsParsingError name issues entity))"

definition getWithId :: "OneIndexTable \<Rightarrow> string \<Rightarrow> entity option" where
  "getWithId this ident = mapGet (entities this) ident"

text \<open>
  Lines 361-373. \<open>checkForeignKey\<close> answers \<open>true\<close>, or what \<open>getWithId\<close> found; its
  callers test the answer with \<open>!\<close>.
\<close>

datatype checked = IsTrue | Found "entity option"

fun truthy :: "checked \<Rightarrow> bool" where
  "truthy IsTrue = True"
| "truthy (Found None) = False"
| "truthy (Found (Some e)) = True"

definition checkForeignKey :: "ItineraryTgtfs \<Rightarrow> string \<Rightarrow> jsValue \<Rightarrow> error + checked" where
  "checkForeignKey tgtfs referenced ident =
     (if ident = Undefined then Inr IsTrue
      else (case ident of
              Str s \<Rightarrow> (let referencedTable = tables tgtfs referenced
                        in Inr (Found (getWithId referencedTable s)))
            | _ \<Rightarrow> Inl (ForeignKeyNotString ident)))"

text \<open>
  The loop over \<open>#foreignKeys\<close>, lines 86-96 and 151-162; the two differ in the error they
  throw.
\<close>

fun checkLinkedFields ::
  "(string \<Rightarrow> string \<Rightarrow> jsValue \<Rightarrow> error) \<Rightarrow> ItineraryTgtfs \<Rightarrow> entity \<Rightarrow> (string \<times> string) list
     \<Rightarrow> error + unit" where
  "checkLinkedFields thrown tgtfs entity [] = Inr ()"
| "checkLinkedFields thrown tgtfs entity ((foreignKey, referenced) # rest) =
     (case checkForeignKey tgtfs referenced (getProp entity foreignKey) of
        Inl e \<Rightarrow> Inl e
      | Inr r \<Rightarrow>
          (if \<not> truthy r then Inl (thrown foreignKey referenced (getProp entity foreignKey))
           else checkLinkedFields thrown tgtfs entity rest))"

definition addParsedEntity :: "OneIndexTable \<Rightarrow> entity \<Rightarrow> entity \<times> OneIndexTable" where
  "addParsedEntity this entity =
     (entity, this\<lparr>entities := mapSet (entities this) (getKey this entity) entity\<rparr>)"

definition addEntity ::
  "OneIndexTable \<Rightarrow> ItineraryTgtfs \<Rightarrow> jsobject \<Rightarrow> bool \<Rightarrow> error + entity \<times> OneIndexTable" where
  "addEntity this tgtfs preEntity validateLinkedFieldsArg =
     (case parseEntity (zodFieldsSchema this) (tableName (config this)) preEntity of
        Inl e \<Rightarrow> Inl e
      | Inr entity \<Rightarrow>
          (case (if validateLinkedFieldsArg
                 then checkLinkedFields InvalidForeignKey (registry this tgtfs) entity
                        (checkedForeignKeys this)
                 else Inr ()) of
             Inl e \<Rightarrow> Inl e
           | Inr u \<Rightarrow> Inr (addParsedEntity this entity)))"


definition deleteEntity :: "OneIndexTable \<Rightarrow> entity \<Rightarrow> OneIndexTable" where
  "deleteEntity this entity = this\<lparr>entities := mapDelete (entities this) (getKey this entity)\<rparr>"

fun validateEach :: "OneIndexTable \<Rightarrow> ItineraryTgtfs \<Rightarrow> entity list \<Rightarrow> error + unit" where
  "validateEach this tgtfs [] = Inr ()"
| "validateEach this tgtfs (entity # rest) =
     (case checkLinkedFields
             (\<lambda>foreignKey referenced v.
                EntityWithInvalidForeignKey (tableName (config this)) foreignKey referenced v entity)
             tgtfs entity (checkedForeignKeys this) of
        Inl e \<Rightarrow> Inl e
      | Inr u \<Rightarrow> validateEach this tgtfs rest)"

definition validateLinkedFields :: "OneIndexTable \<Rightarrow> ItineraryTgtfs \<Rightarrow> error + unit" where
  "validateLinkedFields this tgtfs =
     validateEach this (registry this tgtfs) (mapValues (entities this))"

text \<open>Lines 170-176: the callback given to \<open>importFromCsv\<close>, and \<open>importFromPath\<close>.\<close>

definition importRow :: "ItineraryTgtfs \<Rightarrow> OneIndexTable CsvRowParser" where
  "importRow tgtfs preEntity this =
     (case addEntity this tgtfs preEntity False of
        Inl e \<Rightarrow> Throws e this
      | Inr (entity, this') \<Rightarrow> Void this')"

definition importFromPath ::
  "OneIndexTable \<Rightarrow> ItineraryTgtfs \<Rightarrow> fileSystem \<Rightarrow> (string \<Rightarrow> string list) \<Rightarrow> string
     \<Rightarrow> OneIndexTable outcome option" where
  "importFromPath this tgtfs fs createReadStream path =
     (case importFromCsv fs createReadStream path (importRow tgtfs)
             (transformHeader (config this)) this of
        None \<Rightarrow> None
      | Some (Failed e this') \<Rightarrow> Some (Failed e this')
      | Some (Returned this') \<Rightarrow>
          (if \<not> transcodeMode tgtfs
           then (case validateLinkedFields this' tgtfs of
                   Inl e \<Rightarrow> Some (Failed e this')
                 | Inr u \<Rightarrow> Some (Returned this'))
           else Some (Returned this')))"


section \<open>Reading a chunk character by character\<close>

text \<open>
  \<open>scan\<close> reads a chunk one character at a time: it collects the characters of the field
  in hand and hands the field to \<open>commaField\<close> or \<open>newlineField\<close> at each comma or
  newline. It is not in the sources; \<open>parseChunk\<close> is proved equal to it below, and the
  properties of \<open>parseChunk\<close> are then proved by induction on the chunk.
\<close>

definition isDelimiter :: "char \<Rightarrow> bool" where
  "isDelimiter ch \<longleftrightarrow> ch = comma \<or> ch = newline"

fun scan ::
  "parseOptions \<Rightarrow> 'c CsvRowParser \<Rightarrow> string \<Rightarrow> string \<Rightarrow> CsvParseState \<Rightarrow> 'c \<Rightarrow> 'c chunkResult" where
  "scan options parser [] pending state c = Parsed state pending c"
| "scan options parser (x # xs) pending state c =
     (if x = comma then
        (case commaField pending state of
           Inl e \<Rightarrow> Thrown e c
         | Inr state' \<Rightarrow> scan options parser xs [] state' c)
      else if x = newline then
        (case newlineField options parser pending state c of
           ReturnMinus1 c' \<Rightarrow> Stopped c'
         | Throw e c' \<Rightarrow> Thrown e c'
         | Go state' c' \<Rightarrow> scan options parser xs [] state' c')
      else scan options parser xs (pending @ [x]) state c)"

text \<open>A callback that keeps the rows it is given, and one that stops at the first row.\<close>

definition recordRows :: "jsobject list CsvRowParser" where
  "recordRows row rows = Void (rows @ [row])"

definition stopAtOnce :: "jsobject list CsvRowParser" where
  "stopAtOnce row rows = Minus1 (rows @ [row])"

text \<open>The result of \<open>parseChunk\<close> as the loop of \<open>importFromCsv\<close> takes it.\<close>

fun asReadResult :: "'c chunkResult \<Rightarrow> 'c readResult" where
  "asReadResult (Parsed state remainder c) = EndOfStream (Some (state, remainder)) c"
| "asReadResult (Stopped c) = EarlyReturn c"
| "asReadResult (Thrown e c) = ReadThrew e c"


text \<open>The state of the row callback that a call of \<open>parseChunk\<close> leaves.\<close>

fun callbackState :: "'c chunkResult \<Rightarrow> 'c" where
  "callbackState (Parsed state remainder c) = c"
| "callbackState (Stopped c) = c"
| "callbackState (Thrown e c) = c"

definition noEmptyString :: "jsobject \<Rightarrow> bool" where
  "noEmptyString row \<longleftrightarrow> Str [] \<notin> snd ` set row"

section \<open>Notions used in the statements about tables\<close>

text \<open>
  The values that make the key of an entity in a single-key table: those of the primary-key
  fields, or all of them when the table declares no primary key.
\<close>

definition keyValues :: "OneIndexTable \<Rightarrow> entity \<Rightarrow> jsValue list" where
  "keyValues this entity =
     (if primaryKey (config this) = [] then objectValues entity
      else map (\<lambda>k. getProp entity k) (primaryKey (config this)))"

text \<open>
  A checked foreign key of an entity \<open>resolves\<close> when its value is absent, or is a string
  under which the referenced table holds an entity; it is \<open>dangling\<close> when its value is a
  string under which the referenced table holds none.
\<close>

definition resolves :: "ItineraryTgtfs \<Rightarrow> entity \<Rightarrow> string \<times> string \<Rightarrow> bool" where
  "resolves tgtfs entity fk \<longleftrightarrow>
     (case getProp entity (fst fk) of
        Undefined \<Rightarrow> True
      | Str s \<Rightarrow> getWithId (tables tgtfs (snd fk)) s \<noteq> None
      | _ \<Rightarrow> False)"

definition dangling :: "ItineraryTgtfs \<Rightarrow> entity \<Rightarrow> string \<times> string \<Rightarrow> bool" where
  "dangling tgtfs entity fk \<longleftrightarrow>
     (case getProp entity (fst fk) of
        Str s \<Rightarrow> getWithId (tables tgtfs (snd fk)) s = None
      | _ \<Rightarrow> False)"

definition stringOrAbsent :: "entity \<Rightarrow> string \<times> string \<Rightarrow> bool" where
  "stringOrAbsent entity fk \<longleftrightarrow>
     (case getProp entity (fst fk) of Undefined \<Rightarrow> True | Str s \<Rightarrow> True | _ \<Rightarrow> False)"





text \<open>
  A small schema, Registry and file system, for the concrete cases: trips with a primary
  key \<open>trip_id\<close> and a foreign key \<open>route_id\<close>, which is also listed as an inter-feed key.
\<close>

definition sampleParse :: "jsobject \<Rightarrow> string list \<times> entity option" where
  "sampleParse obj =
     (case getProp obj ''trip_id'' of
        Str s \<Rightarrow> ([], Some [(''trip_id'', Str s), (''route_id'', getProp obj ''route_id'')])
      | _ \<Rightarrow> ([''Field trip_id is not of the expected type''], None))"

definition sampleSchema :: OneIndexConfig where
  "sampleSchema =
     \<lparr>tableName = ''trips'',
      fieldsParse = sampleParse,
      shape = [''trip_id'', ''route_id''],
      primaryKey = [''trip_id''],
      foreignKeys = [(''route_id'', ''routes'')],
      interFeedKeys = Some [''route_id''],
      gtfsFields = None,
      additionalValidation = None,
      transformHeader = None\<rparr>"

definition sampleTgtfs :: "bool \<Rightarrow> bool \<Rightarrow> ItineraryTgtfs" where
  "sampleTgtfs transcode interFeed =
     \<lparr>transcodeMode = transcode,
      allowInterFeedKeys = interFeed,
      tables = (\<lambda>name. \<lparr>entities = [],
                         config = sampleSchema\<lparr>tableName := name\<rparr>,
                         checkedForeignKeys = []\<rparr>)\<rparr>"

definition sampleTable :: "bool \<Rightarrow> bool \<Rightarrow> OneIndexTable" where
  "sampleTable transcode interFeed = newOneIndexTable sampleSchema (sampleTgtfs transcode interFeed)"

definition sampleFiles :: fileSystem where
  "sampleFiles = [''trips.txt'' \<mapsto> ''trip_id,route_id\<newline>,r1\<newline>'']"

definition wholeFile :: "string \<Rightarrow> string list" where
  "wholeFile content = [content]"




definition sampleGrouped :: TwoIndexTable where
  "sampleGrouped =
     \<lparr>TwoIndexTable.entities = [],
      TwoIndexTable.config =
        \<lparr>tableName = ''fare_leg_rules'',
         fieldsParse = sampleParse,
         shape = [''trip_id'', ''route_id''],
         primaryKey = [''route_id''],
         foreignKeys = [],
         interFeedKeys = None,
         gtfsFields = None,
         additionalValidation = None,
         transformHeader = None,
         secondaryKey = [''trip_id'']\<rparr>\<rparr>"

section \<open>Notions used in the statement about export and import\<close>

text \<open>
  The writer doubles each quote of a string it puts in quotes (\<open>replaceAll('"', '""')\<close>).
\<close>

definition escapeQuotes :: "string \<Rightarrow> string" where
  "escapeQuotes s = concat (map (\<lambda>ch. if ch = quote then [quote, quote] else [ch]) s)"

















text \<open>Entities and a row of that schema.\<close>

definition tripOne :: entity where
  "tripOne = [(''trip_id'', Str ''t1''), (''route_id'', Str ''r1'')]"

definition tripOneMoved :: entity where
  "tripOneMoved = [(''trip_id'', Str ''t1''), (''route_id'', Str ''r2'')]"

definition tripTwo :: entity where
  "tripTwo = [(''trip_id'', Str ''t2''), (''route_id'', Undefined)]"

definition tripTwoRow :: jsobject where
  "tripTwoRow = [(''trip_id'', Str ''t2'')]"

section \<open>Properties of the string functions\<close>

lemma find_upt_drop:
  "i \<le> length s \<Longrightarrow>
   List.find (\<lambda>k. s ! k = ch) [i ..< length s] =
     (if ch \<in> set (drop i s)
      then Some (i + length (takeWhile (\<lambda>x. x \<noteq> ch) (drop i s)))
      else None)"
proof (induction "length s - i" arbitrary: i)
  case 0
  then show ?case by simp
next
  case (Suc n)
  then have lt: "i < length s" by arith
  have d: "drop i s = s ! i # drop (Suc i) s"
    using lt by (simp add: Cons_nth_drop_Suc)
  have u: "[i ..< length s] = i # [Suc i ..< length s]"
    using lt by (simp add: upt_conv_Cons)
  have ih: "List.find (\<lambda>k. s ! k = ch) [Suc i ..< length s] =
     (if ch \<in> set (drop (Suc i) s)
      then Some (Suc i + length (takeWhile (\<lambda>x. x \<noteq> ch) (drop (Suc i) s)))
      else None)"
    using Suc.hyps(1)[of "Suc i"] Suc.hyps(2) lt by simp
  show ?case
    unfolding u d using ih by auto
qed

lemma indexOf_drop:
  "i \<le> length s \<Longrightarrow>
   indexOf s ch (int i) =
     (if ch \<in> set (drop i s)
      then int (i + length (takeWhile (\<lambda>x. x \<noteq> ch) (drop i s)))
      else - 1)"
  by (simp add: indexOf_def find_upt_drop)

lemma lastIndexOf_Nil: "lastIndexOf [] ch = - 1"
  by (simp add: lastIndexOf_def)

lemma lastIndexOf_snoc:
  "lastIndexOf (xs @ [x]) ch = (if x = ch then int (length xs) else lastIndexOf xs ch)"
proof -
  have c: "List.find (\<lambda>k. (xs @ [x]) ! k = ch) (rev [0 ..< length xs]) =
           List.find (\<lambda>k. xs ! k = ch) (rev [0 ..< length xs])"
    by (rule find_cong) (auto simp: nth_append)
  show ?thesis
    by (simp add: lastIndexOf_def c)
qed

lemma lastIndexOf_bounds: "- 1 \<le> lastIndexOf s ch \<and> lastIndexOf s ch < int (length s)"
  by (induction s rule: rev_induct) (auto simp: lastIndexOf_Nil lastIndexOf_snoc)

lemma lastIndexOf_ge: "j < length s \<Longrightarrow> s ! j = ch \<Longrightarrow> int j \<le> lastIndexOf s ch"
proof (induction s rule: rev_induct)
  case Nil
  then show ?case by simp
next
  case (snoc x xs)
  then show ?case
    by (cases "j < length xs") (auto simp: lastIndexOf_snoc nth_append)
qed

lemma lastIndexOf_nth: "0 \<le> lastIndexOf s ch \<Longrightarrow> s ! nat (lastIndexOf s ch) = ch"
proof (induction s rule: rev_induct)
  case Nil
  then show ?case by (simp add: lastIndexOf_Nil)
next
  case (snoc x xs)
  then show ?case
    using lastIndexOf_bounds[of xs ch]
    by (auto simp: lastIndexOf_snoc nth_append)
qed

lemma lastIndex_ge_iff:
  assumes "i \<le> length s"
  shows "int i \<le> max (lastIndexOf s newline) (lastIndexOf s comma)
         \<longleftrightarrow> (\<exists>x \<in> set (drop i s). isDelimiter x)"
proof
  assume a: "int i \<le> max (lastIndexOf s newline) (lastIndexOf s comma)"
  then obtain ch where ch: "isDelimiter ch" "int i \<le> lastIndexOf s ch"
    unfolding isDelimiter_def by (cases "lastIndexOf s newline \<le> lastIndexOf s comma") auto
  let ?k = "nat (lastIndexOf s ch)"
  have k: "?k < length s" "s ! ?k = ch" "i \<le> ?k"
    using ch lastIndexOf_bounds[of s ch] lastIndexOf_nth[of s ch] by auto
  have "?k - i < length (drop i s)" "drop i s ! (?k - i) = ch"
    using k by auto
  then have "ch \<in> set (drop i s)"
    by (metis nth_mem)
  then show "\<exists>x \<in> set (drop i s). isDelimiter x" using ch by blast
next
  assume "\<exists>x \<in> set (drop i s). isDelimiter x"
  then obtain x where x: "x \<in> set (drop i s)" "isDelimiter x" by blast
  then obtain j where j: "j < length (drop i s)" "drop i s ! j = x"
    by (meson in_set_conv_nth)
  then have "i + j < length s" "s ! (i + j) = x" using assms by auto
  then have "int (i + j) \<le> lastIndexOf s x" by (rule lastIndexOf_ge)
  then show "int i \<le> max (lastIndexOf s newline) (lastIndexOf s comma)"
    using x(2) unfolding isDelimiter_def by auto
qed

lemma lastIndex_eq:
  assumes "i \<le> length s" "i = 0 \<or> isDelimiter (s ! (i - 1))"
    and "\<not> (\<exists>x \<in> set (drop i s). isDelimiter x)"
  shows "max (lastIndexOf s newline) (lastIndexOf s comma) + 1 = int i"
proof -
  let ?li = "max (lastIndexOf s newline) (lastIndexOf s comma)"
  have up: "?li < int i"
    using lastIndex_ge_iff[OF assms(1)] assms(3) by auto
  have lo: "int i - 1 \<le> ?li"
  proof (cases "i = 0")
    case True
    then show ?thesis using lastIndexOf_bounds[of s comma] by (simp add: le_max_iff_disj)
  next
    case False
    then have d: "isDelimiter (s ! (i - 1))" "i - 1 < length s"
      using assms by auto
    have "int (i - 1) \<le> lastIndexOf s (s ! (i - 1))"
      using d(2) by (rule lastIndexOf_ge) simp
    then show ?thesis using d(1) False unfolding isDelimiter_def by auto
  qed
  show ?thesis using up lo by linarith
qed

section \<open>The loop of parseChunk reads the chunk field by field\<close>

lemma scan_prefix:
  "\<forall>x \<in> set pre. \<not> isDelimiter x \<Longrightarrow>
   scan options parser (pre @ rest) pending state c =
   scan options parser rest (pending @ pre) state c"
  by (induction pre arbitrary: pending) (auto simp: isDelimiter_def)

lemma slice_drop:
  "i \<le> length s \<Longrightarrow> drop i s = pre @ rest \<Longrightarrow>
   slice s (int i) (int (i + length pre)) = pre"
proof -
  assume a: "i \<le> length s" "drop i s = pre @ rest"
  have "length (drop i s) = length pre + length rest" using a(2) by simp
  then have l: "i + length pre \<le> length s" using a(1) by simp
  show ?thesis
    using a l by (simp add: slice_def Let_def min_def)
qed

lemma sliceFrom_drop: "i \<le> length s \<Longrightarrow> sliceFrom s (int i) = drop i s"
  by (simp add: sliceFrom_def slice_def Let_def min_def)

lemma indexOf_hit:
  assumes "i \<le> length s" "drop i s = pre @ ch # rest" "ch \<notin> set pre"
  shows "indexOf s ch (int i) = int (i + length pre)"
proof -
  have "takeWhile (\<lambda>x. x \<noteq> ch) (pre @ ch # rest) = pre"
    using assms(3) by (metis (mono_tags, lifting) takeWhile_tail takeWhile_eq_all_conv)
  then show ?thesis
    using assms by (simp add: indexOf_drop)
qed

lemma indexOf_later:
  assumes "i \<le> length s" "drop i s = pre @ x # rest" "ch \<notin> set pre" "x \<noteq> ch"
  shows "indexOf s ch (int i) = - 1 \<or> int (i + length pre) < indexOf s ch (int i)"
proof -
  have "\<And>y. y \<in> set pre \<Longrightarrow> y \<noteq> ch"
    using assms(3) by auto
  then have "takeWhile (\<lambda>y. y \<noteq> ch) (pre @ x # rest) = pre @ x # takeWhile (\<lambda>y. y \<noteq> ch) rest"
    using assms(4) by simp
  then show ?thesis
    using assms by (simp add: indexOf_drop)
qed

lemma parseLoop_scan:
  assumes "lastIndex = max (lastIndexOf csv newline) (lastIndexOf csv comma)"
    and "i \<le> length csv"
    and "i = 0 \<or> isDelimiter (csv ! (i - 1))"
  shows "parseLoop options parser csv lastIndex (int i) state c =
         Some (scan options parser (drop i csv) [] state c)"
  using assms(2,3)
proof (induction "length csv - i" arbitrary: i state c rule: less_induct)
  case less
  show ?case
  proof (cases "\<exists>x \<in> set (drop i csv). isDelimiter x")
    case False
    then have nle: "\<not> int i \<le> lastIndex"
      using lastIndex_ge_iff[OF less.prems(1)] assms(1) by simp
    have li: "lastIndex + 1 = int i"
      using lastIndex_eq[OF less.prems(1) less.prems(2) False] assms(1) by simp
    have "scan options parser (drop i csv) [] state c = Parsed state (drop i csv) c"
      using scan_prefix[of "drop i csv" options parser "[]" "[]" state c] False by simp
    then show ?thesis
      using nle li sliceFrom_drop[OF less.prems(1)]
      by (subst parseLoop.simps) simp
  next
    case True
    then have le: "int i \<le> lastIndex"
      using lastIndex_ge_iff[OF less.prems(1)] assms(1) by simp
    from True obtain pre x rest where d: "drop i csv = pre @ x # rest"
      and x: "isDelimiter x" and pre: "\<forall>y \<in> set pre. \<not> isDelimiter y"
      using split_list_first_prop[of "drop i csv" isDelimiter] by blast
    let ?j = "i + length pre"
    have len: "length (drop i csv) = length pre + 1 + length rest" using d by simp
    then have j: "?j < length csv" using less.prems(1) by simp
    have "csv ! ?j = drop i csv ! length pre"
      using less.prems(1) by simp
    then have nx: "csv ! ?j = x"
      using d by simp
    have "drop (Suc ?j) csv = drop (Suc (length pre)) (drop i csv)"
      by (simp add: add.commute)
    then have dr: "drop (Suc ?j) csv = rest"
      using d by simp
    define k where "k = int ?j"
    have sl: "slice csv (int i) k = pre"
      using slice_drop[OF less.prems(1) d] by (simp add: k_def)
    have sc: "scan options parser (drop i csv) [] state c = scan options parser (x # rest) pre state c"
      using scan_prefix[OF pre, of options parser "x # rest" "[]" state c] d by simp
    have ih: "parseLoop options parser csv lastIndex (k + 1) state' c' =
                Some (scan options parser rest [] state' c')" for state' c'
    proof -
      have "parseLoop options parser csv lastIndex (int (Suc ?j)) state' c' =
            Some (scan options parser (drop (Suc ?j) csv) [] state' c')"
        using j nx x by (intro less.hyps) auto
      then show ?thesis
        using dr by (simp add: k_def algebra_simps)
    qed
    have npre: "comma \<notin> set pre" "newline \<notin> set pre"
      using pre unfolding isDelimiter_def by auto
    have k0: "0 \<le> k" by (simp add: k_def)
    show ?thesis
    proof (cases "x = comma")
      case True
      have nc: "indexOf csv comma (int i) = k"
        using indexOf_hit[OF less.prems(1) _ npre(1)] d True by (simp add: k_def)
      have nn: "indexOf csv newline (int i) = - 1 \<or> k < indexOf csv newline (int i)"
        using indexOf_later[OF less.prems(1) d npre(2)] True by (simp add: comma_def newline_def k_def)
      have "parseLoop options parser csv lastIndex (int i) state c =
            (case commaField pre state of
               Inl e \<Rightarrow> Some (Thrown e c)
             | Inr state' \<Rightarrow> parseLoop options parser csv lastIndex (k + 1) state' c)"
        using le nc nn sl k0 by (subst parseLoop.simps) (auto simp: Let_def)
      then show ?thesis
        using sc True ih by (auto split: sum.splits)
    next
      case False
      then have xn: "x = newline" using x unfolding isDelimiter_def by simp
      have nn: "indexOf csv newline (int i) = k"
        using indexOf_hit[OF less.prems(1) _ npre(2)] d xn by (simp add: k_def)
      have nc: "indexOf csv comma (int i) = - 1 \<or> k < indexOf csv comma (int i)"
        using indexOf_later[OF less.prems(1) d npre(1)] xn by (simp add: comma_def newline_def k_def)
      have "parseLoop options parser csv lastIndex (int i) state c =
            (case newlineField options parser pre state c of
               ReturnMinus1 c' \<Rightarrow> Some (Stopped c')
             | Throw e c' \<Rightarrow> Some (Thrown e c')
             | Go state' c' \<Rightarrow> parseLoop options parser csv lastIndex (k + 1) state' c')"
        using le nc nn sl k0 by (subst parseLoop.simps) (auto simp: Let_def)
      then show ?thesis
        using sc xn ih by (auto split: step.splits simp: comma_def newline_def)
    qed
  qed
qed

lemma parseChunk_scan:
  "parseChunk csv parser stateArg options c =
   Some (scan options parser csv []
           (case stateArg of None \<Rightarrow> defaultState | Some s \<Rightarrow> s) c)"
  using parseLoop_scan[of _ csv 0 options parser]
  by (simp add: parseChunk_def Let_def)

lemma scan_append:
  "scan options parser (a @ b) pending state c =
     (case scan options parser a pending state c of
        Parsed state' remainder c' \<Rightarrow> scan options parser b remainder state' c'
      | Stopped c' \<Rightarrow> Stopped c'
      | Thrown e c' \<Rightarrow> Thrown e c')"
proof (induction a arbitrary: pending state c)
  case Nil
  then show ?case by simp
next
  case (Cons x a)
  show ?case
  proof (cases "x = comma")
    case True
    then show ?thesis
      using Cons.IH by (cases "commaField pending state") auto
  next
    case nc: False
    show ?thesis
    proof (cases "x = newline")
      case True
      then show ?thesis
        using Cons.IH nc
        by (cases "newlineField options parser pending state c") (auto split: chunkResult.splits)
    next
      case False
      then show ?thesis using nc Cons.IH by simp
    qed
  qed
qed

lemma scan_remainder:
  assumes "scan options parser a pending state c = Parsed state' remainder c'"
    and "\<forall>x \<in> set pending. \<not> isDelimiter x"
  shows "(remainder = pending @ a \<and> (\<forall>x \<in> set a. \<not> isDelimiter x))
       \<or> (\<exists>pre. a = pre @ remainder \<and> pre \<noteq> [] \<and> isDelimiter (last pre)
              \<and> (\<forall>x \<in> set remainder. \<not> isDelimiter x))"
  using assms
proof (induction a arbitrary: pending state c)
  case Nil
  then show ?case by simp
next
  case (Cons x a)
  show ?case
  proof (cases "isDelimiter x")
    case True
    then obtain state1 c1 where s: "scan options parser a [] state1 c1 = Parsed state' remainder c'"
      using Cons.prems(1)
      by (auto simp: isDelimiter_def split: if_splits sum.splits step.splits)
    from Cons.IH[OF s] consider
        "remainder = a" "\<forall>x \<in> set a. \<not> isDelimiter x"
      | pre where "a = pre @ remainder" "pre \<noteq> []" "isDelimiter (last pre)"
          "\<forall>x \<in> set remainder. \<not> isDelimiter x"
      by auto
    then show ?thesis
    proof cases
      case 1
      then have "x # a = [x] @ remainder \<and> [x] \<noteq> [] \<and> isDelimiter (last [x])
                 \<and> (\<forall>x \<in> set remainder. \<not> isDelimiter x)"
        using True by simp
      then show ?thesis by blast
    next
      case 2
      then have "x # a = (x # pre) @ remainder \<and> (x # pre) \<noteq> [] \<and> isDelimiter (last (x # pre))
                 \<and> (\<forall>x \<in> set remainder. \<not> isDelimiter x)"
        by simp
      then show ?thesis by blast
    qed
  next
    case False
    then have s: "scan options parser a (pending @ [x]) state c = Parsed state' remainder c'"
      using Cons.prems(1) by (simp add: isDelimiter_def)
    have p: "\<forall>y \<in> set (pending @ [x]). \<not> isDelimiter y"
      using Cons.prems(2) False by simp
    from Cons.IH[OF s p] consider
        "remainder = pending @ x # a" "\<forall>x \<in> set a. \<not> isDelimiter x"
      | pre where "a = pre @ remainder" "pre \<noteq> []" "isDelimiter (last pre)"
          "\<forall>x \<in> set remainder. \<not> isDelimiter x"
      by auto
    then show ?thesis
    proof cases
      case 1
      then show ?thesis using False by simp
    next
      case 2
      then have "x # a = (x # pre) @ remainder \<and> (x # pre) \<noteq> [] \<and> isDelimiter (last (x # pre))
                 \<and> (\<forall>x \<in> set remainder. \<not> isDelimiter x)"
        by simp
      then show ?thesis by blast
    qed
  qed
qed

lemma scan_remainder_clean:
  assumes "scan options parser a pending state c = Parsed state' remainder c'"
    and "\<forall>x \<in> set pending. \<not> isDelimiter x"
  shows "\<forall>x \<in> set remainder. \<not> isDelimiter x"
  using scan_remainder[OF assms] assms(2) by auto

lemma readChunks_scan:
  assumes "\<forall>x \<in> set remainder. \<not> isDelimiter x"
  shows "readChunks options parser chunks (Some (state, remainder)) c =
         Some (asReadResult (scan options parser (concat chunks) remainder state c))"
  using assms
proof (induction chunks arbitrary: state remainder c)
  case Nil
  then show ?case by simp
next
  case (Cons chunk chunks)
  have p: "parseChunk (remainder @ chunk) parser (Some state) options c =
           Some (scan options parser chunk remainder state c)"
    using scan_prefix[OF Cons.prems, of options parser chunk "[]" state c]
    by (simp add: parseChunk_scan)
  show ?case
  proof (cases "scan options parser chunk remainder state c")
    case (Parsed state1 remainder1 c1)
    have "\<forall>x \<in> set remainder1. \<not> isDelimiter x"
      using scan_remainder_clean[OF Parsed Cons.prems] .
    then have "readChunks options parser chunks (Some (state1, remainder1)) c1 =
         Some (asReadResult (scan options parser (concat chunks) remainder1 state1 c1))"
      by (rule Cons.IH)
    then show ?thesis
      using p Parsed by (simp add: scan_append)
  next
    case (Stopped c1)
    then show ?thesis using p by (simp add: scan_append)
  next
    case (Thrown e c1)
    then show ?thesis using p by (simp add: scan_append)
  qed
qed

lemma readChunks_concat:
  assumes "chunks \<noteq> []"
  shows "readChunks options parser chunks None c =
         Some (asReadResult (scan options parser (concat chunks) [] defaultState c))"
proof -
  obtain chunk rest where ch: "chunks = chunk # rest"
    using assms by (cases chunks) auto
  have p: "parseChunk chunk parser None options c =
           Some (scan options parser chunk [] defaultState c)"
    by (simp add: parseChunk_scan)
  show ?thesis
  proof (cases "scan options parser chunk [] defaultState c")
    case (Parsed state1 remainder1 c1)
    have "\<forall>x \<in> set remainder1. \<not> isDelimiter x"
      using scan_remainder_clean[OF Parsed] by simp
    then have "readChunks options parser rest (Some (state1, remainder1)) c1 =
         Some (asReadResult (scan options parser (concat rest) remainder1 state1 c1))"
      by (rule readChunks_scan)
    then show ?thesis
      using p Parsed ch by (simp add: scan_append)
  next
    case (Stopped c1)
    then show ?thesis using p ch by (simp add: scan_append)
  next
    case (Thrown e c1)
    then show ?thesis using p ch by (simp add: scan_append)
  qed
qed


section \<open>The row parser: claims\<close>

text \<open>
  C1. Whatever the content and however it is cut into chunks (one chunk at least), the loop
  that parses each chunk with the remainder of the one before put in front, and with the
  state carried over, ends as one call of \<open>parseChunk\<close> on the whole content does: the
  same state and remainder, the same stop or the same error, and the same state of the row
  callback, whatever the callback is. With the callback that keeps its rows, that state
  is the sequence of the rows delivered.
\<close>

theorem chunking_preserves_rows:
  assumes "chunks \<noteq> []"
  shows "readChunks options parser chunks None c =
         map_option asReadResult (parseChunk (concat chunks) parser None options c)"
  using readChunks_concat[OF assms, of options parser c]
  by (simp add: parseChunk_scan)

theorem chunking_preserves_rows_witness:
  \<open>[''a,b\<newline>"x"'', ''"y'', ''","p'', '',q"\<newline>re'', ''st''] \<noteq> []
   \<and> readChunks \<lparr>parseOptions.transformHeader = None\<rparr> recordRows
         [''a,b\<newline>"x"'', ''"y'', ''","p'', '',q"\<newline>re'', ''st''] None [] =
       map_option asReadResult
         (parseChunk (concat [''a,b\<newline>"x"'', ''"y'', ''","p'', '',q"\<newline>re'', ''st''])
            recordRows None \<lparr>parseOptions.transformHeader = None\<rparr> [])\<close>
  using chunking_preserves_rows
    [of \<open>[''a,b\<newline>"x"'', ''"y'', ''","p'', '',q"\<newline>re'', ''st'']\<close>
        \<open>\<lparr>parseOptions.transformHeader = None\<rparr>\<close> recordRows \<open>[]\<close>]
  by simp

text \<open>
  C8. The claim as stated fails: when the row callback signals stop, \<open>parseChunk\<close> returns
  \<open>-1\<close>, which carries neither state nor remainder. Here the callback stops at the first
  row, with \<open>rest\<close> still unread.
\<close>

theorem stop_returns_no_remainder:
  \<open>parseChunk ''h\<newline>a\<newline>rest'' stopAtOnce None \<lparr>parseOptions.transformHeader = None\<rparr> [] =
     Some (Stopped [[(''h'', Str ''a'')]])\<close>
  by code_simp

text \<open>
  C8, amended. For every chunk, every prior state and every callback, \<open>parseChunk\<close> comes
  to an end; and whenever it returns a state (the callback did not signal stop and nothing
  was thrown), it returns the remainder with it, which is the text after the last comma or
  newline of the chunk: the chunk is a prefix followed by the remainder, the prefix is
  empty or ends with a comma or a newline, and the remainder holds neither.
\<close>

theorem parseChunk_remainder:
  "\<exists>r. parseChunk csv parser stateArg options c = Some r \<and>
       (case r of
          Parsed state' remainder c' \<Rightarrow>
            (\<exists>pre. csv = pre @ remainder \<and> (pre = [] \<or> last pre = comma \<or> last pre = newline))
            \<and> comma \<notin> set remainder \<and> newline \<notin> set remainder
        | Stopped c' \<Rightarrow> True
        | Thrown e c' \<Rightarrow> True)"
proof -
  let ?state = "case stateArg of None \<Rightarrow> defaultState | Some s \<Rightarrow> s"
  let ?r = "scan options parser csv [] ?state c"
  have p: "parseChunk csv parser stateArg options c = Some ?r"
    by (rule parseChunk_scan)
  have "case ?r of
          Parsed state' remainder c' \<Rightarrow>
            (\<exists>pre. csv = pre @ remainder \<and> (pre = [] \<or> last pre = comma \<or> last pre = newline))
            \<and> comma \<notin> set remainder \<and> newline \<notin> set remainder
        | Stopped c' \<Rightarrow> True
        | Thrown e c' \<Rightarrow> True"
  proof (cases ?r)
    case (Parsed state' remainder c')
    from scan_remainder[OF Parsed] have
      "(remainder = csv \<and> (\<forall>x \<in> set csv. \<not> isDelimiter x))
       \<or> (\<exists>pre. csv = pre @ remainder \<and> pre \<noteq> [] \<and> isDelimiter (last pre)
              \<and> (\<forall>x \<in> set remainder. \<not> isDelimiter x))"
      by simp
    then have "(\<exists>pre. csv = pre @ remainder \<and> (pre = [] \<or> last pre = comma \<or> last pre = newline))
            \<and> comma \<notin> set remainder \<and> newline \<notin> set remainder"
      unfolding isDelimiter_def by auto
    then show ?thesis using Parsed by simp
  qed simp_all
  then show ?thesis using p by blast
qed

theorem parseChunk_remainder_witness:
  \<open>(\<exists>r. parseChunk ''a,b\<newline>1,2\<newline>re'' recordRows None \<lparr>parseOptions.transformHeader = None\<rparr> [] = Some r \<and>
       (case r of
          Parsed state' remainder c' \<Rightarrow>
            (\<exists>pre. ''a,b\<newline>1,2\<newline>re'' = pre @ remainder
                   \<and> (pre = [] \<or> last pre = comma \<or> last pre = newline))
            \<and> comma \<notin> set remainder \<and> newline \<notin> set remainder
        | Stopped c' \<Rightarrow> True
        | Thrown e c' \<Rightarrow> True))
   \<and> parseChunk ''a,b\<newline>1,2\<newline>re'' recordRows None \<lparr>parseOptions.transformHeader = None\<rparr> [] =
       Some (Parsed \<lparr>readingState = Text, header = [''a'', ''b''], columns = [], text = []\<rparr>
               ''re'' [[(''a'', Str ''1''), (''b'', Str ''2'')]])\<close>
proof -
  have v: \<open>parseChunk ''a,b\<newline>1,2\<newline>re'' recordRows None \<lparr>parseOptions.transformHeader = None\<rparr> [] =
       Some (Parsed \<lparr>readingState = Text, header = [''a'', ''b''], columns = [], text = []\<rparr>
               ''re'' [[(''a'', Str ''1''), (''b'', Str ''2'')]])\<close>
    by code_simp
  show ?thesis
    using parseChunk_remainder
      [of \<open>''a,b\<newline>1,2\<newline>re''\<close> recordRows None \<open>\<lparr>parseOptions.transformHeader = None\<rparr>\<close> \<open>[]\<close>] v
    by blast
qed

subsection \<open>Quotes\<close>

















subsection \<open>Empty fields\<close>

lemma set_foldl_update:
  "set (foldl (\<lambda>obj (k, v). AList.update k v obj) acc es) \<subseteq> set acc \<union> set es"
proof (induction es arbitrary: acc)
  case Nil
  then show ?case by simp
next
  case (Cons e es)
  obtain k v where e: "e = (k, v)" by (cases e)
  have "set (AList.update k v acc) \<subseteq> insert (k, v) (set acc)"
    by (induction acc) auto
  then show ?case
    using Cons[of "AList.update k v acc"] e by auto
qed

lemma set_fromEntries: "set (fromEntries es) \<subseteq> set es"
  using set_foldl_update[of "[]" es] by (simp add: fromEntries_def)

lemma zipRow_noEmptyString: "noEmptyString (zipRow hdr row)"
proof -
  have "Str [] \<notin> snd ` set (map (\<lambda>(i, fieldName).
               (fieldName,
                case at row i of
                  None \<Rightarrow> Undefined
                | Some s \<Rightarrow> (if s = [] then Undefined else Str s)))
            (List.enumerate 0 hdr))"
    by (auto split: option.splits if_splits)
  then show ?thesis
    unfolding noEmptyString_def zipRow_def using set_fromEntries by fastforce
qed

lemma at_snoc_empty:
  "(case at (row @ [[]]) i of None \<Rightarrow> Undefined | Some s \<Rightarrow> (if s = [] then Undefined else Str s)) =
   (case at row i of None \<Rightarrow> Undefined | Some s \<Rightarrow> (if s = [] then Undefined else Str s))"
  by (auto simp: at_def nth_append)

lemma zipRow_snoc_empty: "zipRow hdr (row @ [[]]) = zipRow hdr row"
  unfolding zipRow_def by (simp add: at_snoc_empty)

lemma finishRow_recordRows:
  "finishRow options recordRows state rows = Go state' rows' \<Longrightarrow>
   rows' = rows \<or> (\<exists>h r. rows' = rows @ [zipRow h r])"
  by (auto simp: finishRow_def recordRows_def split: if_splits)

lemma finishRow_recordRows_Go:
  "\<exists>state' rows'. finishRow options recordRows state rows = Go state' rows'"
  by (auto simp: finishRow_def recordRows_def split: if_splits)

lemma newlineField_recordRows:
  "newlineField options recordRows field state rows = Go state' rows' \<Longrightarrow>
   rows' = rows \<or> (\<exists>h r. rows' = rows @ [zipRow h r])"
  unfolding newlineField_def Let_def
  by (auto split: if_splits step.splits dest: finishRow_recordRows)

lemma newlineField_recordRows_halt:
  "newlineField options recordRows field state rows \<noteq> ReturnMinus1 rows'"
  "newlineField options recordRows field state rows = Throw e rows' \<Longrightarrow> rows' = rows"
  unfolding newlineField_def Let_def
  using finishRow_recordRows_Go
  by (auto split: if_splits step.splits simp: finishRow_def recordRows_def)

lemma scan_recordRows:
  "\<forall>row \<in> set rows. noEmptyString row \<Longrightarrow>
   \<forall>row \<in> set (callbackState (scan options recordRows csv pending state rows)). noEmptyString row"
proof (induction csv arbitrary: pending state rows)
  case Nil
  then show ?case by simp
next
  case (Cons x xs)
  show ?case
  proof (cases "x = comma")
    case True
    then show ?thesis
      using Cons by (cases "commaField pending state") auto
  next
    case nc: False
    show ?thesis
    proof (cases "x = newline")
      case True
      show ?thesis
      proof (cases "newlineField options recordRows pending state rows")
        case (Go state' rows')
        then have "\<forall>row \<in> set rows'. noEmptyString row"
          using newlineField_recordRows[OF Go] Cons.prems zipRow_noEmptyString by auto
        then show ?thesis
          using Cons.IH Go True nc by simp
      next
        case (ReturnMinus1 rows')
        then show ?thesis using newlineField_recordRows_halt(1) by blast
      next
        case (Throw e rows')
        then show ?thesis
          using newlineField_recordRows_halt(2)[OF Throw] Cons.prems True nc by simp
      qed
    next
      case False
      then show ?thesis using nc Cons by simp
    qed
  qed
qed

text \<open>
  C10. No row built by \<open>zipRow\<close> holds the empty string as a value; a row with an empty
  field at its end is zipped to the same object as the row without it; and every row that
  \<open>parseChunk\<close> delivers to the callback (here the callback that keeps its rows) is free of
  empty strings.
\<close>

theorem empty_field_is_absent:
  "(\<forall>(k, v) \<in> set (zipRow hdr row). v \<noteq> Str [])
   \<and> zipRow hdr (row @ [[]]) = zipRow hdr row
   \<and> (\<forall>r. parseChunk csv recordRows stateArg options [] = Some r \<longrightarrow>
          (\<forall>delivered \<in> set (callbackState r). \<forall>(k, v) \<in> set delivered. v \<noteq> Str []))"
proof (intro conjI allI impI)
  show "\<forall>(k, v) \<in> set (zipRow hdr row). v \<noteq> Str []"
    using zipRow_noEmptyString[of hdr row] unfolding noEmptyString_def by force
next
  show "zipRow hdr (row @ [[]]) = zipRow hdr row"
    by (rule zipRow_snoc_empty)
next
  fix r
  assume "parseChunk csv recordRows stateArg options [] = Some r"
  then have r: "r = scan options recordRows csv []
                     (case stateArg of None \<Rightarrow> defaultState | Some s \<Rightarrow> s) []"
    by (simp add: parseChunk_scan)
  have "\<forall>row \<in> set (callbackState r). noEmptyString row"
    unfolding r by (rule scan_recordRows) simp
  then show "\<forall>delivered \<in> set (callbackState r). \<forall>(k, v) \<in> set delivered. v \<noteq> Str []"
    unfolding noEmptyString_def by force
qed

theorem empty_field_is_absent_witness:
  \<open>zipRow [''x'', ''y'', ''z''] ([''a''] @ [[]]) = zipRow [''x'', ''y'', ''z''] [''a'']
   \<and> zipRow [''x'', ''y'', ''z''] [''a'', [], ''b''] =
       [(''x'', Str ''a''), (''y'', Undefined), (''z'', Str ''b'')]
   \<and> parseChunk ''x,y,z\<newline>a,,b\<newline>a\<newline>'' recordRows None \<lparr>parseOptions.transformHeader = None\<rparr> [] =
       Some (Parsed \<lparr>readingState = Text, header = [''x'', ''y'', ''z''], columns = [], text = []\<rparr> []
               [[(''x'', Str ''a''), (''y'', Undefined), (''z'', Str ''b'')],
                [(''x'', Str ''a''), (''y'', Undefined), (''z'', Undefined)]])\<close>
proof -
  have 1: \<open>zipRow [''x'', ''y'', ''z''] ([''a''] @ [[]]) = zipRow [''x'', ''y'', ''z''] [''a'']\<close>
    using empty_field_is_absent[of \<open>[''x'', ''y'', ''z'']\<close> \<open>[''a'']\<close>] by blast
  have 2: \<open>zipRow [''x'', ''y'', ''z''] [''a'', [], ''b''] =
       [(''x'', Str ''a''), (''y'', Undefined), (''z'', Str ''b'')]\<close>
    by code_simp
  have 3: \<open>parseChunk ''x,y,z\<newline>a,,b\<newline>a\<newline>'' recordRows None \<lparr>parseOptions.transformHeader = None\<rparr> [] =
       Some (Parsed \<lparr>readingState = Text, header = [''x'', ''y'', ''z''], columns = [], text = []\<rparr> []
               [[(''x'', Str ''a''), (''y'', Undefined), (''z'', Str ''b'')],
                [(''x'', Str ''a''), (''y'', Undefined), (''z'', Undefined)]])\<close>
    by code_simp
  show ?thesis using 1 2 3 by blast
qed

section \<open>The entity tables: claims\<close>

subsection \<open>Keys\<close>

lemma getKey_keyValues: "getKey this entity = join (map toString (keyValues this entity)) separator"
  by (simp add: getKey_def keyValues_def comp_def)

lemma length_update_present:
  "k \<in> fst ` set al \<Longrightarrow> length (AList.update k v al) = length al"
  by (induction al) auto

lemma filter_update_distinct:
  "distinct (map fst al) \<Longrightarrow> filter (\<lambda>p. fst p = k) (AList.update k v al) = [(k, v)]"
proof (induction al)
  case Nil
  then show ?case by simp
next
  case (Cons p al)
  show ?case
  proof (cases "fst p = k")
    case True
    then have "k \<notin> fst ` set al" using Cons.prems by auto
    then have "filter (\<lambda>p. fst p = k) al = []"
      by (auto simp: filter_empty_conv)
    then show ?thesis using True by simp
  next
    case False
    then show ?thesis using Cons by simp
  qed
qed

text \<open>
  C6. In a single-key table (its keys distinct, as the keys of a Map are), insert an entity
  and then a second one with the same values in the primary-key fields: the second insert
  returns its entity (there is no error to raise); afterwards the key holds the second
  entity, it is the only entry under that key, the size of the table is what it was before
  the second insert, and the keys are still distinct.
\<close>

theorem second_insert_overwrites:
  assumes "distinct (map fst (entities this))"
    and "addParsedEntity this e1 = (r1, this1)"
    and "keyValues this e2 = keyValues this e1"
    and "addParsedEntity this1 e2 = (r2, this2)"
  shows "r2 = e2
       \<and> getWithId this2 (getKey this e1) = Some e2
       \<and> filter (\<lambda>p. fst p = getKey this e1) (entities this2) = [(getKey this e1, e2)]
       \<and> mapSize (entities this2) = mapSize (entities this1)
       \<and> distinct (map fst (entities this2))"
proof -
  let ?k = "getKey this e1"
  have t1: "this1 = this\<lparr>entities := AList.update ?k e1 (entities this)\<rparr>" and r1: "r1 = e1"
    using assms(2) by (auto simp: addParsedEntity_def mapSet_def)
  have c1: "config this1 = config this"
    using t1 by simp
  have "keyValues this1 e2 = keyValues this e2"
    by (simp add: keyValues_def c1)
  then have k1: "getKey this1 e2 = ?k"
    using assms(3) by (simp only: getKey_keyValues)
  have t2: "this2 = this1\<lparr>entities := AList.update ?k e2 (entities this1)\<rparr>" and r2: "r2 = e2"
    using assms(4) k1 by (auto simp: addParsedEntity_def mapSet_def)
  have d1: "distinct (map fst (entities this1))"
    using assms(1) t1 by (simp add: distinct_update)
  have mem: "?k \<in> fst ` set (entities this1)"
    using t1 by (simp add: dom_update)
  show ?thesis
    using r2 t2 d1 mem
    by (simp add: getWithId_def mapGet_def mapSize_def update_conv' distinct_update
        length_update_present filter_update_distinct)
qed

theorem second_insert_overwrites_witness:
  "getWithId (snd (addParsedEntity (snd (addParsedEntity (sampleTable False False) tripOne)) tripOneMoved))
      (getKey (sampleTable False False) tripOne) = Some tripOneMoved
   \<and> mapSize (entities (snd (addParsedEntity (snd (addParsedEntity (sampleTable False False) tripOne)) tripOneMoved))) =
       mapSize (entities (snd (addParsedEntity (sampleTable False False) tripOne)))
   \<and> mapValues (entities (snd (addParsedEntity (snd (addParsedEntity (sampleTable False False) tripOne)) tripOneMoved))) =
       [tripOneMoved]"
proof -
  have d: "distinct (map fst (entities (sampleTable False False)))"
    by (simp add: sampleTable_def newOneIndexTable_def)
  have k: "keyValues (sampleTable False False) tripOneMoved = keyValues (sampleTable False False) tripOne"
    by code_simp
  have v: "mapValues (entities (snd (addParsedEntity (snd (addParsedEntity (sampleTable False False) tripOne)) tripOneMoved))) =
       [tripOneMoved]"
    by code_simp
  show ?thesis
    using second_insert_overwrites
      [OF d _ k, of "fst (addParsedEntity (sampleTable False False) tripOne)" "snd (addParsedEntity (sampleTable False False) tripOne)"
         "fst (addParsedEntity (snd (addParsedEntity (sampleTable False False) tripOne)) tripOneMoved)"
         "snd (addParsedEntity (snd (addParsedEntity (sampleTable False False) tripOne)) tripOneMoved)"] v
    by simp
qed

text \<open>
  C7. In a two-level table, when the group of an entity holds one member, stored under the
  secondary key of that entity, deleting the entity removes the group: the group lookup by
  its primary key returns the empty list, and the primary key is no longer a key of the
  table.
\<close>

theorem delete_last_member_removes_group:
  assumes "mapGet (TwoIndexTable.entities this) (getPrimaryKey this entity) = Some members"
    and "map fst members = [getSecondaryKey this entity]"
  shows "getWithFirstId (deleteEntity2 this entity) (getPrimaryKey this entity) = []
       \<and> mapGet (TwoIndexTable.entities (deleteEntity2 this entity)) (getPrimaryKey this entity) = None
       \<and> getPrimaryKey this entity \<notin> fst ` set (TwoIndexTable.entities (deleteEntity2 this entity))"
proof -
  let ?pk = "getPrimaryKey this entity" and ?sk = "getSecondaryKey this entity"
  obtain stored where m: "members = [(?sk, stored)]"
    using assms(2) by (cases members) auto
  let ?this1 = "this\<lparr>TwoIndexTable.entities :=
                  mapSet (TwoIndexTable.entities this) ?pk (mapDelete members ?sk)\<rparr>"
  have pk1: "getPrimaryKey ?this1 entity = ?pk"
    by (simp add: getPrimaryKey_def)
  have g1: "mapGet (TwoIndexTable.entities ?this1) ?pk = Some []"
    using m by (simp add: mapGet_def mapSet_def mapDelete_def update_conv')
  have d: "deleteEntity2 this entity =
           ?this1\<lparr>TwoIndexTable.entities := mapDelete (TwoIndexTable.entities ?this1) ?pk\<rparr>"
    unfolding deleteEntity2_def Let_def using assms(1) g1 pk1
    by (simp add: mapSize_def)
  have n: "mapGet (TwoIndexTable.entities (deleteEntity2 this entity)) ?pk = None"
    unfolding d by (simp add: mapGet_def mapDelete_def delete_conv')
  then have "?pk \<notin> fst ` set (TwoIndexTable.entities (deleteEntity2 this entity))"
    by (simp add: mapGet_def map_of_eq_None_iff)
  then show ?thesis
    using n by (simp add: getWithFirstId_def)
qed

theorem delete_last_member_removes_group_witness:
  "getWithFirstId (deleteEntity2 (snd (addParsedEntity2 sampleGrouped tripOne)) tripOne)
      (getPrimaryKey (snd (addParsedEntity2 sampleGrouped tripOne)) tripOne) = []
   \<and> getWithFirstId (snd (addParsedEntity2 sampleGrouped tripOne)) ''r1'' = [tripOne]
   \<and> TwoIndexTable.entities (deleteEntity2 (snd (addParsedEntity2 sampleGrouped tripOne)) tripOne) = []"
proof -
  let ?t = "snd (addParsedEntity2 sampleGrouped tripOne)"
  have g: "mapGet (TwoIndexTable.entities ?t) (getPrimaryKey ?t tripOne) = Some [(''t1'', tripOne)]"
    by code_simp
  have m: "map fst [(''t1'', tripOne)] = [getSecondaryKey ?t tripOne]"
    by code_simp
  have b: "getWithFirstId ?t ''r1'' = [tripOne]"
    by code_simp
  have e: "TwoIndexTable.entities (deleteEntity2 ?t tripOne) = []"
    by code_simp
  show ?thesis
    using delete_last_member_removes_group[OF g m] b e by blast
qed

subsection \<open>Import\<close>

text \<open>
  C9. When the path does not exist, \<open>importFromPath\<close> on an empty table returns without an
  error and leaves the table as it is; and on any table it comes to an end with the table
  unchanged.
\<close>

theorem missing_file_is_no_op:
  assumes "\<not> pathExists fs path"
  shows "(entities this = [] \<longrightarrow>
            importFromPath this tgtfs fs createReadStream path = Some (Returned this))
       \<and> (\<exists>r. importFromPath this tgtfs fs createReadStream path = Some r
              \<and> (r = Returned this \<or> (\<exists>e. r = Failed e this)))"
  using assms
  by (auto simp: importFromPath_def importFromCsv_def validateLinkedFields_def mapValues_def
      split: sum.splits)

theorem missing_file_is_no_op_witness:
  "importFromPath (sampleTable False False) (sampleTgtfs False False) sampleFiles wholeFile ''stops.txt'' =
     Some (Returned (sampleTable False False))"
proof -
  have p: "\<not> pathExists sampleFiles ''stops.txt''"
    by code_simp
  have e: "entities (sampleTable False False) = []"
    by (simp add: sampleTable_def newOneIndexTable_def)
  show ?thesis
    using missing_file_is_no_op[OF p, of "sampleTable False False" "sampleTgtfs False False" wholeFile] e by blast
qed










subsection \<open>Foreign keys\<close>

lemma checkLinkedFields_ok:
  "list_all (resolves tgtfs entity) fks \<Longrightarrow> checkLinkedFields thrown tgtfs entity fks = Inr ()"
proof (induction fks)
  case Nil
  then show ?case by simp
next
  case (Cons p fks)
  obtain fk r where p: "p = (fk, r)" by (cases p)
  have "resolves tgtfs entity (fk, r)" using Cons.prems p by simp
  then have "\<exists>c. checkForeignKey tgtfs r (getProp entity fk) = Inr c \<and> truthy c"
    by (auto simp: resolves_def checkForeignKey_def split: jsValue.splits)
  then show ?case using Cons p by auto
qed

lemma checkLinkedFields_dangling:
  "list_all (stringOrAbsent entity) fks \<Longrightarrow> list_ex (dangling tgtfs entity) fks \<Longrightarrow>
   \<exists>fk r. (fk, r) \<in> set fks \<and> dangling tgtfs entity (fk, r)
      \<and> checkLinkedFields thrown tgtfs entity fks = Inl (thrown fk r (getProp entity fk))"
proof (induction fks)
  case Nil
  then show ?case by simp
next
  case (Cons p fks)
  obtain fk r where p: "p = (fk, r)" by (cases p)
  have sa: "stringOrAbsent entity (fk, r)" using Cons.prems p by simp
  show ?case
  proof (cases "dangling tgtfs entity (fk, r)")
    case True
    then have "checkForeignKey tgtfs r (getProp entity fk) = Inr (Found None)"
      by (auto simp: dangling_def checkForeignKey_def split: jsValue.splits)
    then have "checkLinkedFields thrown tgtfs entity (p # fks) = Inl (thrown fk r (getProp entity fk))"
      using p by simp
    then show ?thesis using True p by auto
  next
    case False
    then have "\<exists>c. checkForeignKey tgtfs r (getProp entity fk) = Inr c \<and> truthy c"
      using sa by (auto simp: dangling_def stringOrAbsent_def checkForeignKey_def split: jsValue.splits)
    then have e: "checkLinkedFields thrown tgtfs entity (p # fks) = checkLinkedFields thrown tgtfs entity fks"
      using p by auto
    have "list_all (stringOrAbsent entity) fks" "list_ex (dangling tgtfs entity) fks"
      using Cons.prems False p by auto
    from Cons.IH[OF this] show ?thesis using e by auto
  qed
qed

lemma validateEach_ok:
  "list_all (\<lambda>e. list_all (resolves tgtfs e) (checkedForeignKeys this)) es \<Longrightarrow>
   validateEach this tgtfs es = Inr ()"
  by (induction es) (auto simp: checkLinkedFields_ok)

lemma validateEach_dangling:
  "list_all (\<lambda>e. list_all (stringOrAbsent e) (checkedForeignKeys this)) es \<Longrightarrow>
   list_ex (\<lambda>e. list_ex (dangling tgtfs e) (checkedForeignKeys this)) es \<Longrightarrow>
   \<exists>e fk r. e \<in> set es \<and> (fk, r) \<in> set (checkedForeignKeys this) \<and> dangling tgtfs e (fk, r)
      \<and> validateEach this tgtfs es =
          Inl (EntityWithInvalidForeignKey (tableName (config this)) fk r (getProp e fk) e)"
proof (induction es)
  case Nil
  then show ?case by simp
next
  case (Cons e es)
  have sa: "list_all (stringOrAbsent e) (checkedForeignKeys this)"
    using Cons.prems by simp
  show ?case
  proof (cases "list_ex (dangling tgtfs e) (checkedForeignKeys this)")
    case True
    from checkLinkedFields_dangling[OF sa True,
        of "\<lambda>foreignKey referenced v.
              EntityWithInvalidForeignKey (tableName (config this)) foreignKey referenced v e"]
    show ?thesis by auto
  next
    case False
    then have "list_all (resolves tgtfs e) (checkedForeignKeys this)"
      using sa
      by (auto simp: list_all_iff list_ex_iff resolves_def dangling_def stringOrAbsent_def
          split: jsValue.splits)
    then have e: "validateEach this tgtfs (e # es) = validateEach this tgtfs es"
      by (simp add: checkLinkedFields_ok)
    have "list_all (\<lambda>e. list_all (stringOrAbsent e) (checkedForeignKeys this)) es"
       "list_ex (\<lambda>e. list_ex (dangling tgtfs e) (checkedForeignKeys this)) es"
      using Cons.prems False by auto
    from Cons.IH[OF this] show ?thesis using e by auto
  qed
qed

text \<open>
  C5. The claim as stated fails for a foreign key that is listed as an inter-feed key when
  the Registry allows inter-feed keys: the constructor leaves it out of the keys the table
  checks. Here \<open>route_id\<close> is a declared foreign key, its value \<open>r1\<close> is present, the table
  \<open>routes\<close> holds no entity under \<open>r1\<close>, and \<open>addEntity\<close> with reference checking stores
  the entity.
\<close>

theorem inter_feed_key_is_not_checked:
  "(''route_id'', ''routes'') \<in> set (foreignKeys (config (sampleTable False True)))
   \<and> getWithId (tables (registry (sampleTable False True) (sampleTgtfs False True)) ''routes'')
         ''r1'' = None
   \<and> map_sum id (\<lambda>(e, t). (e, entities t))
        (addEntity (sampleTable False True) (sampleTgtfs False True) tripOne True) =
      Inr (tripOne, [(''t1'', tripOne)])"
  by code_simp

text \<open>
  C5, amended. The foreign keys a table checks are the declared ones, less the inter-feed
  keys when the Registry allowed them at construction (all the declared ones otherwise).
  For a row that passes validation, \<open>addEntity\<close> with reference checking: when the checked
  foreign keys of the entity are strings or absent and one of them is a string under which
  the referenced table holds no entity, it throws the referential-integrity error of such
  a key; when each checked foreign key is absent or is held by the referenced table, it
  stores the entity, so an absent value never throws. \<open>validateLinkedFields\<close> does the same
  over the stored entities.
\<close>

theorem foreign_key_checks:
  assumes "parseEntity (zodFieldsSchema this) (tableName (config this)) preEntity = Inr entity"
  shows "(list_all (stringOrAbsent entity) (checkedForeignKeys this)
            \<and> list_ex (dangling (registry this tgtfs) entity) (checkedForeignKeys this)
          \<longrightarrow> (\<exists>fk r. (fk, r) \<in> set (checkedForeignKeys this)
                  \<and> addEntity this tgtfs preEntity True =
                      Inl (InvalidForeignKey fk r (getProp entity fk))))
       \<and> (list_all (resolves (registry this tgtfs) entity) (checkedForeignKeys this)
          \<longrightarrow> addEntity this tgtfs preEntity True = Inr (addParsedEntity this entity))
       \<and> (list_all (\<lambda>e. list_all (stringOrAbsent e) (checkedForeignKeys this))
              (mapValues (entities this))
            \<and> list_ex (\<lambda>e. list_ex (dangling (registry this tgtfs) e) (checkedForeignKeys this))
                (mapValues (entities this))
          \<longrightarrow> (\<exists>e fk r. e \<in> set (mapValues (entities this))
                  \<and> (fk, r) \<in> set (checkedForeignKeys this)
                  \<and> validateLinkedFields this tgtfs =
                      Inl (EntityWithInvalidForeignKey (tableName (config this)) fk r
                             (getProp e fk) e)))
       \<and> (list_all (\<lambda>e. list_all (resolves (registry this tgtfs) e) (checkedForeignKeys this))
              (mapValues (entities this))
          \<longrightarrow> validateLinkedFields this tgtfs = Inr ())
       \<and> (interFeedKeys schema = None \<or> \<not> allowInterFeedKeys tgtfs0
          \<longrightarrow> checkedForeignKeys (newOneIndexTable schema tgtfs0) = foreignKeys schema)"
proof (intro conjI impI)
  assume "list_all (stringOrAbsent entity) (checkedForeignKeys this)
            \<and> list_ex (dangling (registry this tgtfs) entity) (checkedForeignKeys this)"
  then obtain fk r where "(fk, r) \<in> set (checkedForeignKeys this)"
    "checkLinkedFields InvalidForeignKey (registry this tgtfs) entity (checkedForeignKeys this)
       = Inl (InvalidForeignKey fk r (getProp entity fk))"
    using checkLinkedFields_dangling[of entity "checkedForeignKeys this" "registry this tgtfs"
        InvalidForeignKey] by blast
  then show "\<exists>fk r. (fk, r) \<in> set (checkedForeignKeys this)
                  \<and> addEntity this tgtfs preEntity True =
                      Inl (InvalidForeignKey fk r (getProp entity fk))"
    using assms by (auto simp: addEntity_def)
next
  assume "list_all (resolves (registry this tgtfs) entity) (checkedForeignKeys this)"
  then show "addEntity this tgtfs preEntity True = Inr (addParsedEntity this entity)"
    using assms by (simp add: addEntity_def checkLinkedFields_ok)
next
  assume "list_all (\<lambda>e. list_all (stringOrAbsent e) (checkedForeignKeys this))
              (mapValues (entities this))
            \<and> list_ex (\<lambda>e. list_ex (dangling (registry this tgtfs) e) (checkedForeignKeys this))
                (mapValues (entities this))"
  then show "\<exists>e fk r. e \<in> set (mapValues (entities this))
                  \<and> (fk, r) \<in> set (checkedForeignKeys this)
                  \<and> validateLinkedFields this tgtfs =
                      Inl (EntityWithInvalidForeignKey (tableName (config this)) fk r
                             (getProp e fk) e)"
    using validateEach_dangling[of this "mapValues (entities this)" "registry this tgtfs"]
    unfolding validateLinkedFields_def by blast
next
  assume "list_all (\<lambda>e. list_all (resolves (registry this tgtfs) e) (checkedForeignKeys this))
              (mapValues (entities this))"
  then show "validateLinkedFields this tgtfs = Inr ()"
    unfolding validateLinkedFields_def by (rule validateEach_ok)
next
  assume "interFeedKeys schema = None \<or> \<not> allowInterFeedKeys tgtfs0"
  then show "checkedForeignKeys (newOneIndexTable schema tgtfs0) = foreignKeys schema"
    by (auto simp: newOneIndexTable_def split: option.splits)
qed

theorem foreign_key_checks_witness:
  "(\<exists>fk r. (fk, r) \<in> set (checkedForeignKeys (sampleTable False False))
       \<and> addEntity (sampleTable False False) (sampleTgtfs False False) tripOne True =
           Inl (InvalidForeignKey fk r (getProp tripOne fk)))
   \<and> addEntity (sampleTable False False) (sampleTgtfs False False) tripTwoRow True = Inr (addParsedEntity (sampleTable False False) tripTwo)
   \<and> (\<exists>e fk r. e \<in> set (mapValues (entities (snd (addParsedEntity (sampleTable False False) tripOne))))
       \<and> (fk, r) \<in> set (checkedForeignKeys (snd (addParsedEntity (sampleTable False False) tripOne)))
       \<and> validateLinkedFields (snd (addParsedEntity (sampleTable False False) tripOne)) (sampleTgtfs False False) =
           Inl (EntityWithInvalidForeignKey
                  (tableName (config (snd (addParsedEntity (sampleTable False False) tripOne)))) fk r (getProp e fk) e))
   \<and> validateLinkedFields (snd (addParsedEntity (sampleTable False False) tripTwo)) (sampleTgtfs False False) = Inr ()
   \<and> checkedForeignKeys (newOneIndexTable sampleSchema (sampleTgtfs False False)) = foreignKeys sampleSchema"
proof -
  let ?t = "sampleTable False False" and ?g = "sampleTgtfs False False"
  let ?t1 = "snd (addParsedEntity ?t tripOne)"
  let ?t3 = "snd (addParsedEntity ?t tripTwo)"
  have p1: "parseEntity (zodFieldsSchema ?t) (tableName (config ?t)) tripOne = Inr tripOne"
    by code_simp
  have p3: "parseEntity (zodFieldsSchema ?t) (tableName (config ?t)) tripTwoRow = Inr tripTwo"
    by code_simp
  have a1: "list_all (stringOrAbsent tripOne) (checkedForeignKeys ?t)
            \<and> list_ex (dangling (registry ?t ?g) tripOne) (checkedForeignKeys ?t)"
    by code_simp
  have a3: "list_all (resolves (registry ?t ?g) tripTwo) (checkedForeignKeys ?t)"
    by code_simp
  have q1: "parseEntity (zodFieldsSchema ?t1) (tableName (config ?t1)) tripOne = Inr tripOne"
    by code_simp
  have b1: "list_all (\<lambda>e. list_all (stringOrAbsent e) (checkedForeignKeys ?t1))
              (mapValues (entities ?t1))
            \<and> list_ex (\<lambda>e. list_ex (dangling (registry ?t1 ?g) e) (checkedForeignKeys ?t1))
                (mapValues (entities ?t1))"
    by code_simp
  have q3: "parseEntity (zodFieldsSchema ?t3) (tableName (config ?t3)) tripOne = Inr tripOne"
    by code_simp
  have b3: "list_all (\<lambda>e. list_all (resolves (registry ?t3 ?g) e) (checkedForeignKeys ?t3))
              (mapValues (entities ?t3))"
    by code_simp
  have f: "interFeedKeys sampleSchema = None \<or> \<not> allowInterFeedKeys ?g"
    by (simp add: sampleTgtfs_def)
  have 1: "\<exists>fk r. (fk, r) \<in> set (checkedForeignKeys ?t)
       \<and> addEntity ?t ?g tripOne True = Inl (InvalidForeignKey fk r (getProp tripOne fk))"
    using foreign_key_checks[OF p1, of ?g] a1 by blast
  have 2: "addEntity ?t ?g tripTwoRow True = Inr (addParsedEntity ?t tripTwo)"
    using foreign_key_checks[OF p3, of ?g] a3 by blast
  have 3: "\<exists>e fk r. e \<in> set (mapValues (entities ?t1))
       \<and> (fk, r) \<in> set (checkedForeignKeys ?t1)
       \<and> validateLinkedFields ?t1 ?g =
           Inl (EntityWithInvalidForeignKey (tableName (config ?t1)) fk r (getProp e fk) e)"
    using foreign_key_checks[OF q1, of ?g] b1 by blast
  have 4: "validateLinkedFields ?t3 ?g = Inr ()"
    using foreign_key_checks[OF q3, of ?g] b3 by blast
  have 5: "checkedForeignKeys (newOneIndexTable sampleSchema ?g) = foreignKeys sampleSchema"
    using foreign_key_checks[OF p1, of ?g sampleSchema ?g] f by blast
  show ?thesis
    using 1 2 3 4 5 by blast
qed

section \<open>Export and import\<close>

lemma escapeQuotes_simps [simp]:
  "escapeQuotes [] = []"
  "escapeQuotes (x # xs) = (if x = quote then quote # quote # escapeQuotes xs else x # escapeQuotes xs)"
  "escapeQuotes (xs @ ys) = escapeQuotes xs @ escapeQuotes ys"
  by (simp_all add: escapeQuotes_def)





























































end
